theory Spec2Isabelle
  imports Main "HOL-Library.Sublist"
begin

section \<open>JavaScript strings\<close>

text \<open>
  A JavaScript string is a sequence of UTF-16 code units. The model covers the strings
  whose code units lie in U+0000..U+00FF and writes each code unit as one
  \<^typ>\<open>char\<close>; on these \<open>String.prototype.toLowerCase\<close> and
  \<open>String.prototype.trim\<close> are as follows.
\<close>

definition lower_unit :: "char \<Rightarrow> char" where
  \<comment> \<open>A..Z and the capital letters U+00C0..U+00DE (U+00D7, the multiplication sign,
      is not a letter) move up by 32; every other code unit below 256 is its own lower case.\<close>
  "lower_unit c =
     (let n = (of_char c :: nat) in
      if (65 \<le> n \<and> n \<le> 90) \<or> (192 \<le> n \<and> n \<le> 222 \<and> n \<noteq> 215)
      then char_of (n + 32) else c)"

definition toLowerCase :: "string \<Rightarrow> string" where
  "toLowerCase s = map lower_unit s"

definition isWhiteSpace :: "char \<Rightarrow> bool" where
  \<comment> \<open>TAB, LF, VT, FF, CR, SPACE and NO-BREAK SPACE: the white space and line
      terminators of ECMAScript below 256.\<close>
  "isWhiteSpace c = ((of_char c :: nat) \<in> {9, 10, 11, 12, 13, 32, 160})"

definition trim :: "string \<Rightarrow> string" where
  "trim s = rev (dropWhile isWhiteSpace (rev (dropWhile isWhiteSpace s)))"

fun split :: "char \<Rightarrow> string \<Rightarrow> string list" where
  \<comment> \<open>\<open>s.split(sep)\<close> for a one-character separator: one piece more than there are
      separators, so the empty string gives one empty piece.\<close>
  "split sep [] = [[]]"
| "split sep (c # cs) =
     (if c = sep then [] # split sep cs
      else (case split sep cs of [] \<Rightarrow> [[c]] | w # ws \<Rightarrow> (c # w) # ws))"

fun join :: "string \<Rightarrow> string list \<Rightarrow> string" where
  \<comment> \<open>\<open>Array.prototype.join\<close>\<close>
  "join sep [] = []"
| "join sep [w] = w"
| "join sep (w # v # ws) = w @ sep @ join sep (v # ws)"

definition includes_str :: "string \<Rightarrow> string \<Rightarrow> bool" where
  \<comment> \<open>\<open>s.includes(t)\<close>: t occurs in s as a contiguous piece\<close>
  "includes_str s t = sublist t s"

datatype jsval = JString string | JArray "string list"

fun toText :: "jsval \<Rightarrow> string" where
  \<comment> \<open>the string conversion done when a value is assigned to \<open>textContent\<close>\<close>
  "toText (JString s) = s"
| "toText (JArray ws) = join '','' ws"

datatype error = TypeError


section \<open>The page\<close>

text \<open>
  The markup of the page is not part of the script, so the document is a parameter: the
  list of its elements in document order. \<open>terminal_section\<close> and \<open>nav_link\<close> say that
  the element is in \<open>elements.sections\<close> and in \<open>elements.navLinks\<close>, the two lists the
  script collects once, by class, when it is loaded; \<open>active\<close> is the class of that name
  in the element's class list, \<open>href\<close> what \<open>getAttribute('href')\<close> gives, and \<open>display\<close>
  the \<open>display\<close> of its style. The script never changes an id, nor the two lists.
  The children of the \<open>#output\<close> container are kept apart, as the transcript: the
  lines of the markup (the boot sequence) and the \<open>pre\<close> elements the script appends,
  which carry the class \<open>terminal-output-line\<close>. Transcript lines have no id.
  The state object of the script (\<open>currentSection\<close>, \<open>commandHistory\<close>, \<open>historyIndex\<close>),
  the progress of the key-sequence watcher, the value of the input field, the custom
  properties set on the root element, the pending timers, the animation of the body and
  the style elements added to the head make up the rest of the page.
\<close>

record element =
  elem_id :: string
  terminal_section :: bool
  nav_link :: bool
  href :: "string option"
  active :: bool
  display :: string

record line =
  terminal_output_line :: bool
  textContent :: string

datatype callback = DisplayOutput string | EndRainbow

datatype style = RainbowKeyframes

record page =
  currentSection :: string
  commandHistory :: "string list"
  historyIndex :: int
  konamiIndex :: nat
  document :: "element list"
  transcript :: "line list"
  inputValue :: string
  rootStyle :: "(string \<times> string) list"
  timers :: "(nat \<times> callback) list"
  bodyAnimation :: string
  headStyles :: "style list"

fun getElementById :: "element list \<Rightarrow> string \<Rightarrow> nat option" where
  \<comment> \<open>the position of the first element with this id; an empty id names no element\<close>
  "getElementById [] i = None"
| "getElementById (e # es) i =
     (if i \<noteq> [] \<and> elem_id e = i then Some 0 else map_option Suc (getElementById es i))"

definition init_page :: "element list \<Rightarrow> line list \<Rightarrow> page" where
  \<comment> \<open>the state when the script has loaded, over a given markup\<close>
  "init_page els boot =
     \<lparr> currentSection = ''home'', commandHistory = [], historyIndex = - 1, konamiIndex = 0,
       document = els, transcript = boot, inputValue = [], rootStyle = [], timers = [],
       bodyAnimation = [], headStyles = [] \<rparr>"


section \<open>Navigation\<close>

definition hide :: "element \<Rightarrow> element" where
  \<comment> \<open>the body of the first loop of \<open>navigateToSection\<close>, over \<open>elements.sections\<close>\<close>
  "hide e = (if terminal_section e then e\<lparr>active := False\<rparr> else e)"

definition relink :: "string \<Rightarrow> element \<Rightarrow> element" where
  \<comment> \<open>the body of its second loop, over \<open>elements.navLinks\<close>\<close>
  "relink sectionId l =
     (if nav_link l then l\<lparr>active := (href l = Some (CHR ''#'' # sectionId))\<rparr> else l)"

definition navigateToSection :: "string \<Rightarrow> page \<Rightarrow> page" where
  "navigateToSection sectionId st =
     (let hidden = map hide (document st) in
      case getElementById hidden sectionId of
        None \<Rightarrow> st\<lparr>document := hidden\<rparr>
      | Some t \<Rightarrow>
          let shown = hidden[t := (hidden ! t)\<lparr>active := True\<rparr>] in
          st\<lparr>document := map (relink sectionId) shown, currentSection := sectionId\<rparr>)"

definition activeSections :: "page \<Rightarrow> element list" where
  \<comment> \<open>the sections that bear the active marker\<close>
  "activeSections st = filter (\<lambda>e. terminal_section e \<and> active e) (document st)"

definition highlighted :: "page \<Rightarrow> element list" where
  \<comment> \<open>the navigation links that bear the active marker\<close>
  "highlighted st = filter (\<lambda>e. nav_link e \<and> active e) (document st)"


section \<open>The transcript\<close>

definition displayOutput :: "jsval \<Rightarrow> page \<Rightarrow> page" where
  "displayOutput text st =
     (if getElementById (document st) ''output'' \<noteq> None
      then st\<lparr>transcript := transcript st @
                 [\<lparr>terminal_output_line = True, textContent = toText text\<rparr>]\<rparr>
      else st)"

definition removeOutputLines :: "page \<Rightarrow> page" where
  \<comment> \<open>\<open>output.querySelectorAll('.terminal-output-line').forEach(line => line.remove())\<close>
      under the guard \<open>if (output)\<close>\<close>
  "removeOutputLines st =
     (if getElementById (document st) ''output'' \<noteq> None
      then st\<lparr>transcript := filter (\<lambda>l. \<not> terminal_output_line l) (transcript st)\<rparr>
      else st)"

definition bootLines :: "page \<Rightarrow> line list" where
  \<comment> \<open>the lines of the transcript that no command has produced\<close>
  "bootLines st = filter (\<lambda>l. \<not> terminal_output_line l) (transcript st)"


section \<open>Commands\<close>

type_synonym handler = "string list \<Rightarrow> page \<Rightarrow> jsval \<times> page"

datatype property = Undefined | Function handler | Object

definition Object_prototype :: "string \<Rightarrow> property" where
  \<comment> \<open>What the object literals \<open>commands\<close> and \<open>themes\<close> inherit, at a lower-cased key.
      \<open>constructor\<close> is the function \<open>Object\<close>, which returns an argument that is an
      array as it is; \<open>__proto__\<close> is the prototype object itself. Every other property
      of \<open>Object.prototype\<close> (\<open>toString\<close>, \<open>valueOf\<close>, \<open>hasOwnProperty\<close>, ...) has an
      upper-case letter in its name, and the script looks up lower-cased keys only.\<close>
  "Object_prototype key =
     (if key = ''constructor'' then Function (\<lambda>args st. (JArray args, st))
      else if key = ''__proto__'' then Object
      else Undefined)"

definition newline :: string where
  "newline = [CHR 0x0A]"

definition help_cmd :: handler where
  "help_cmd args st =
     (JString (join newline
        [''Available commands:'',
         ''  help     - Show this help message'',
         ''  ls       - List available sections'',
         ''  cd       - Navigate to section (e.g., cd about)'',
         ''  clear    - Clear terminal output (also: cls, Ctrl+L)'',
         ''  whoami   - Display user information'',
         ''  skills   - Show technical skills'',
         ''  contact  - Display contact information'',
         ''  matrix   - Toggle matrix effect'',
         ''  theme    - Change terminal theme'',
         ''  hack     - Initiate hacking sequence (easter egg)'']), st)"

definition ls :: handler where
  "ls args st = (JString ''home/  about/  projects/  blog/  contact/'', st)"

definition validSections :: "string list" where
  "validSections = [''home'', ''about'', ''projects'', ''blog'', ''contact'']"

definition cd :: handler where
  \<comment> \<open>\<open>args[0]\<close> of an empty array is \<open>undefined\<close>, which the template prints as such\<close>
  "cd args st =
     (case args of
        [] \<Rightarrow> (JString ''Error: undefined: No such directory'', st)
      | section # _ \<Rightarrow>
          if section \<in> set validSections
          then (JString (''Navigating to '' @ section @ ''...''), navigateToSection section st)
          else (JString (''Error: '' @ section @ '': No such directory''), st))"

definition clear :: handler where
  "clear args st = (JString [], removeOutputLines st)"

definition cls :: handler where
  "cls args st = clear [] st"

definition whoami :: handler where
  "whoami args st =
     (JString ''Lev Kozhokaru - Software Engineer | Dev Tools Creator | AI Integration Specialist'',
      st)"

definition skills :: handler where
  "skills args st =
     (JString (join newline
        [''Languages: JavaScript, Python, TypeScript'',
         ''AI/ML: Claude, GPT, Custom LLM Orchestration'',
         ''Tools: React, Node.js, Docker, AWS'',
         ''Focus: Building dev tools that actually work'']), st)"

definition contact :: handler where
  "contact args st =
     (JString (join newline
        [''GitHub: https://github.com/kozhokaru'',
         ''LinkedIn: https://linkedin.com/in/levkoz'']), st)"

definition toggleMatrixEffect :: "page \<Rightarrow> page" where
  "toggleMatrixEffect st =
     (case getElementById (document st) ''matrix-bg'' of
        None \<Rightarrow> st
      | Some c \<Rightarrow>
          st\<lparr>document := (document st)
               [c := (document st ! c)
                  \<lparr>display := (if display (document st ! c) = ''none''
                               then ''block'' else ''none'')\<rparr>]\<rparr>)"

definition matrix :: handler where
  "matrix args st = (JString ''Matrix effect toggled'', toggleMatrixEffect st)"

definition themes :: "string \<Rightarrow> (string \<times> string) list option" where
  "themes = map_of
     [(''default'',
         [(''--text-primary'', ''#00ff41''), (''--accent-cyan'', ''#00d9ff''),
          (''--bg-primary'', ''#0a0e27'')]),
      (''amber'',
         [(''--text-primary'', ''#ffb000''), (''--accent-cyan'', ''#ff6b00''),
          (''--bg-primary'', ''#1a0f00'')]),
      (''ice'',
         [(''--text-primary'', ''#00ffff''), (''--accent-cyan'', ''#0080ff''),
          (''--bg-primary'', ''#000033'')])]"

fun setProperty :: "string \<Rightarrow> string \<Rightarrow> (string \<times> string) list \<Rightarrow> (string \<times> string) list" where
  "setProperty p v [] = [(p, v)]"
| "setProperty p v ((q, w) # ps) =
     (if q = p then (q, v) # ps else (q, w) # setProperty p v ps)"

definition changeTheme :: "string \<Rightarrow> page \<Rightarrow> page" where
  \<comment> \<open>\<open>themes[theme] || themes.default\<close>: an inherited property is truthy and has no
      entries of its own\<close>
  "changeTheme theme st =
     (let selectedTheme =
        (case themes theme of
           Some palette \<Rightarrow> palette
         | None \<Rightarrow>
             (case Object_prototype theme of
                Undefined \<Rightarrow> (case themes ''default'' of Some palette \<Rightarrow> palette | None \<Rightarrow> [])
              | _ \<Rightarrow> []))
      in st\<lparr>rootStyle := foldl (\<lambda>css (p, v). setProperty p v css) (rootStyle st) selectedTheme\<rparr>)"

definition theme :: handler where
  \<comment> \<open>\<open>args[0] || 'default'\<close>: a missing and an empty first argument are both falsy\<close>
  "theme args st =
     (let name = (case args of [] \<Rightarrow> ''default'' | a # _ \<Rightarrow> if a = [] then ''default'' else a)
      in (JString (''Theme changed to: '' @ name), changeTheme name st))"

definition hackMessages :: "string list" where
  "hackMessages =
     [''ACCESSING MAINFRAME...'', ''BYPASSING FIREWALL...'', ''INJECTING PAYLOAD...'',
      ''EXTRACTING DATA...'', ''HACK COMPLETE! Just kidding :)'']"

definition initiateHackingSequence :: "page \<Rightarrow> page" where
  "initiateHackingSequence st =
     st\<lparr>timers := timers st @
          map (\<lambda>(index, msg). (index * 1000, DisplayOutput msg))
            (zip [0 ..< length hackMessages] hackMessages)\<rparr>"

definition hack :: handler where
  "hack args st = (JString ''INITIATING HACK SEQUENCE...'', initiateHackingSequence st)"

definition commands :: "string \<Rightarrow> handler option" where
  \<comment> \<open>the Command Registry: the properties of the object literal itself\<close>
  "commands = map_of
     [(''help'', help_cmd), (''ls'', ls), (''cd'', cd), (''clear'', clear), (''cls'', cls),
      (''whoami'', whoami), (''skills'', skills), (''contact'', contact), (''matrix'', matrix),
      (''theme'', theme), (''hack'', hack)]"

definition commands_get :: "string \<Rightarrow> property" where
  \<comment> \<open>\<open>commands[cmd]\<close>: the object's own property, else the inherited one\<close>
  "commands_get cmd =
     (case commands cmd of Some h \<Rightarrow> Function h | None \<Rightarrow> Object_prototype cmd)"

definition notFound :: "string \<Rightarrow> string" where
  "notFound cmd = ''Command not found: '' @ cmd @ ''. Type 'help' for available commands.''"

definition executeCommand :: "string \<Rightarrow> page \<Rightarrow> error + jsval \<times> page" where
  \<comment> \<open>a function and an object are both truthy; calling what is not a function throws\<close>
  "executeCommand input st =
     (case split (CHR '' '') (toLowerCase (trim input)) of
        [] \<Rightarrow> Inr (JString (notFound ''undefined''), st)
      | cmd # args \<Rightarrow>
          (case commands_get cmd of
             Function h \<Rightarrow> Inr (h args st)
           | Object \<Rightarrow> Inl TypeError
           | Undefined \<Rightarrow> Inr (JString (notFound cmd), st)))"


section \<open>The input handler\<close>

definition at :: "string list \<Rightarrow> int \<Rightarrow> string" where
  \<comment> \<open>\<open>e.target.value = commandHistory[i]\<close>: out of range the array gives
      \<open>undefined\<close>, which the input field holds as text\<close>
  "at xs i = (if 0 \<le> i \<and> i < int (length xs) then xs ! nat i else ''undefined'')"

definition handleTerminalInput :: "string \<Rightarrow> page \<Rightarrow> error + page" where
  "handleTerminalInput key st =
     (if key = ''Enter'' then
        (let input = trim (inputValue st) in
         if input \<noteq> [] then
           (case executeCommand input st of
              Inl e \<Rightarrow> Inl e
            | Inr (output, st1) \<Rightarrow>
                let st2 = displayOutput output st1;
                    st3 = st2\<lparr>commandHistory := commandHistory st2 @ [input]\<rparr>
                in Inr (st3\<lparr>historyIndex := int (length (commandHistory st3)),
                            inputValue := []\<rparr>))
         else Inr st)
      else if key = ''ArrowUp'' then
        (if historyIndex st > 0 then
           let st1 = st\<lparr>historyIndex := historyIndex st - 1\<rparr>
           in Inr (st1\<lparr>inputValue := at (commandHistory st1) (historyIndex st1)\<rparr>)
         else Inr st)
      else if key = ''ArrowDown'' then
        (if historyIndex st < int (length (commandHistory st)) - 1 then
           let st1 = st\<lparr>historyIndex := historyIndex st + 1\<rparr>
           in Inr (st1\<lparr>inputValue := at (commandHistory st1) (historyIndex st1)\<rparr>)
         else Inr (st\<lparr>historyIndex := int (length (commandHistory st)), inputValue := []\<rparr>))
      else Inr st)"


section \<open>The key-sequence watcher\<close>

definition konamiCode :: "string list" where
  "konamiCode =
     [''ArrowUp'', ''ArrowUp'', ''ArrowDown'', ''ArrowDown'', ''ArrowLeft'', ''ArrowRight'',
      ''ArrowLeft'', ''ArrowRight'', ''b'', ''a'']"

definition konamiMessage :: string where
  \<comment> \<open>in the script the text starts with the emoji U+1F3AE and a space, which lie beyond
      the code units written here\<close>
  "konamiMessage = ''KONAMI CODE ACTIVATED! You unlocked the secret mode!''"

definition activateKonamiCode :: "page \<Rightarrow> page" where
  "activateKonamiCode st =
     (let st1 = displayOutput (JString konamiMessage) st in
      st1\<lparr>bodyAnimation := ''rainbow 2s linear infinite'',
          headStyles := headStyles st1 @ [RainbowKeyframes],
          timers := timers st1 @ [(10000, EndRainbow)]\<rparr>)"

definition konamiListener :: "string \<Rightarrow> page \<Rightarrow> page" where
  \<comment> \<open>beyond the end \<open>konamiCode[konamiIndex]\<close> is \<open>undefined\<close> and equals no key\<close>
  "konamiListener key st =
     (if konamiIndex st < length konamiCode \<and> key = konamiCode ! konamiIndex st then
        (let st1 = st\<lparr>konamiIndex := konamiIndex st + 1\<rparr> in
         if konamiIndex st1 = length konamiCode
         then (activateKonamiCode st1)\<lparr>konamiIndex := 0\<rparr>
         else st1)
      else st\<lparr>konamiIndex := 0\<rparr>)"

definition feed :: "string list \<Rightarrow> page \<Rightarrow> page" where
  \<comment> \<open>the watcher run on a sequence of key events\<close>
  "feed keys st = foldl (\<lambda>s key. konamiListener key s) st keys"


section \<open>Events\<close>

text \<open>
  What happens to the page: a key pressed in the input field, the user editing the field,
  and a call of \<open>navigateToSection\<close> from a link, a button or a shortcut. An exception
  leaves a listener where it is thrown; \<open>handleTerminalInput\<close> throws only out of
  \<open>executeCommand\<close>, before its first write, so the page is then as it was.
\<close>

datatype event = Keydown string | Edit string | Navigate string

fun fire :: "event \<Rightarrow> page \<Rightarrow> page" where
  "fire (Keydown key) st = (case handleTerminalInput key st of Inl e \<Rightarrow> st | Inr st' \<Rightarrow> st')"
| "fire (Edit s) st = st\<lparr>inputValue := s\<rparr>"
| "fire (Navigate sectionId) st = navigateToSection sectionId st"

definition run :: "event list \<Rightarrow> page \<Rightarrow> page" where
  "run evs st = foldl (\<lambda>s e. fire e s) st evs"

definition enter :: "string \<Rightarrow> page \<Rightarrow> page" where
  \<comment> \<open>the user types a line and presses Enter\<close>
  "enter s st = fire (Keydown ''Enter'') (fire (Edit s) st)"

definition cursorInRange :: "page \<Rightarrow> bool" where
  "cursorInRange st =
     (0 \<le> historyIndex st \<and> historyIndex st \<le> int (length (commandHistory st)))"

definition cursorUnset :: "page \<Rightarrow> bool" where
  \<comment> \<open>the cursor still has the value the script starts with, and nothing has been entered\<close>
  "cursorUnset st = (historyIndex st = - 1 \<and> commandHistory st = [])"


section \<open>The dispatch contract in the words of the specification\<close>

fun fields :: "string \<Rightarrow> string list" where
  \<comment> \<open>the pieces between white-space characters\<close>
  "fields [] = [[]]"
| "fields (c # cs) =
     (if isWhiteSpace c then [] # fields cs
      else (case fields cs of [] \<Rightarrow> [[c]] | w # ws \<Rightarrow> (c # w) # ws))"

definition words_of :: "string \<Rightarrow> string list" where
  \<comment> \<open>a line split on white space: its words\<close>
  "words_of s = filter (\<lambda>w. w \<noteq> []) (fields s)"

definition spec_executeCommand :: "string \<Rightarrow> page \<Rightarrow> error + jsval \<times> page" where
  \<comment> \<open>"split on whitespace into (command, arguments); look up command (case-insensitive)
      in the Command Registry; if found, invoke with arguments and return its string
      output; if not found, return a fixed command-not-found message"\<close>
  "spec_executeCommand input st =
     (case words_of input of
        [] \<Rightarrow> Inr (JString (notFound []), st)
      | command # arguments \<Rightarrow>
          (case commands (toLowerCase command) of
             Some h \<Rightarrow> Inr (h arguments st)
           | None \<Rightarrow> Inr (JString (notFound command), st)))"


section \<open>A sample page\<close>

definition section_el :: "string \<Rightarrow> bool \<Rightarrow> element" where
  "section_el i a =
     \<lparr>elem_id = i, terminal_section = True, nav_link = False, href = None, active = a,
      display = []\<rparr>"

definition link_el :: "string \<Rightarrow> bool \<Rightarrow> element" where
  "link_el h a =
     \<lparr>elem_id = [], terminal_section = False, nav_link = True, href = Some h, active = a,
      display = []\<rparr>"

definition plain_el :: "string \<Rightarrow> element" where
  "plain_el i =
     \<lparr>elem_id = i, terminal_section = False, nav_link = False, href = None, active = False,
      display = []\<rparr>"

definition demo_document :: "element list" where
  "demo_document =
     [link_el ''#home'' True, link_el ''#about'' False,
      section_el ''home'' True, section_el ''about'' False,
      plain_el ''output'', plain_el ''matrix-bg'']"

definition demo_boot :: "line list" where
  "demo_boot = [\<lparr>terminal_output_line = False, textContent = ''SYSTEM READY''\<rparr>]"

definition demo_page :: page where
  "demo_page = init_page demo_document demo_boot"


section \<open>Lower case, trimming and splitting\<close>

lemma of_char_lt: "(of_char c :: nat) < 256"
  by (cases c) (simp add: of_char_Char)

lemma lower_unit_idem: "lower_unit (lower_unit c) = lower_unit c"
  using of_char_lt [of c] by (auto simp: lower_unit_def Let_def)

lemma isWhiteSpace_lower_unit: "isWhiteSpace (lower_unit c) = isWhiteSpace c"
  using of_char_lt [of c] by (auto simp: lower_unit_def isWhiteSpace_def Let_def)

lemma char_is_space: "(d = CHR '' '') = (of_char d = (32::nat))"
proof -
  have "(d = CHR '' '') = (of_char d = (of_char (CHR '' '') :: nat))"
    by (simp only: of_char_eq_iff)
  then show ?thesis by simp
qed

lemma lower_unit_space: "(lower_unit c = CHR '' '') = (c = CHR '' '')"
proof -
  have "of_char (lower_unit c) = (32::nat) \<longleftrightarrow> of_char c = (32::nat)"
    using of_char_lt [of c] by (auto simp: lower_unit_def Let_def)
  then show ?thesis by (simp only: char_is_space)
qed

lemma toLowerCase_idem: "toLowerCase (toLowerCase s) = toLowerCase s"
  by (simp add: toLowerCase_def lower_unit_idem)

lemma trim_toLowerCase: "trim (toLowerCase s) = toLowerCase (trim s)"
  by (simp add: trim_def toLowerCase_def dropWhile_map rev_map comp_def isWhiteSpace_lower_unit)

lemma dropWhile_id: "xs = [] \<or> \<not> P (hd xs) \<Longrightarrow> dropWhile P xs = xs"
  by (cases xs) auto

lemma dropWhile_rev_last:
  "xs \<noteq> [] \<Longrightarrow> \<not> P (hd xs) \<Longrightarrow>
   dropWhile P (rev (dropWhile P (rev xs))) = rev (dropWhile P (rev xs))"
  by (metis dropWhile_id dropWhile_last hd_rev last_in_set last_rev)

lemma trim_idem: "trim (trim s) = trim s"
proof (cases "dropWhile isWhiteSpace s = []")
  case True
  show ?thesis unfolding trim_def True by simp
next
  case False
  then have "\<not> isWhiteSpace (hd (dropWhile isWhiteSpace s))"
    by (rule hd_dropWhile)
  with False have "dropWhile isWhiteSpace (trim s) = trim s"
    unfolding trim_def by (rule dropWhile_rev_last)
  then show ?thesis by (simp add: trim_def)
qed

lemma normal_form: "toLowerCase (trim (toLowerCase (trim s))) = toLowerCase (trim s)"
  by (simp add: trim_toLowerCase trim_idem toLowerCase_idem)

lemma split_not_Nil: "split sep s \<noteq> []"
  by (induction s) (auto split: list.splits)

lemma join_split: "join [sep] (split sep s) = s"
proof (induction s)
  case Nil
  then show ?case by simp
next
  case (Cons c cs)
  then show ?case
    by (cases "split sep cs"; cases "tl (split sep cs)") (auto simp: split_not_Nil)
qed

lemma split_no_sep: "w \<in> set (split sep s) \<Longrightarrow> sep \<notin> set w"
  by (induction s arbitrary: w) (auto split: if_splits list.splits)

lemma split_map:
  "(\<And>c. (f c = sep) = (c = sep)) \<Longrightarrow> split sep (map f s) = map (map f) (split sep s)"
  by (induction s) (auto split: list.splits)

lemma split_toLowerCase:
  "split (CHR '' '') (toLowerCase s) = map toLowerCase (split (CHR '' '') s)"
  unfolding toLowerCase_def by (rule split_map) (rule lower_unit_space)

lemma executeCommand_cd_about:
  "executeCommand ''cd about'' st =
     Inr (JString ''Navigating to about...'', navigateToSection ''about'' st)"
  by (simp add: executeCommand_def toLowerCase_def trim_def isWhiteSpace_def lower_unit_def
      commands_get_def commands_def cd_def validSections_def)


section \<open>Dispatch works on the lower-cased, trimmed line\<close>

text \<open>
  C10. For every input line, \<open>executeCommand\<close> gives what it gives on the trimmed and then
  lower-cased line: result and page are the same. The whole line is lower-cased, the
  arguments too, so two lines with the same trimmed lower-case form cannot be told apart,
  and \<open>CD ABOUT\<close> navigates to the about section as \<open>cd about\<close> does.
\<close>

theorem executeCommand_lowercases_line:
  "executeCommand s st = executeCommand (toLowerCase (trim s)) st
   \<and> (toLowerCase (trim a) = toLowerCase (trim b) \<longrightarrow> executeCommand a st = executeCommand b st)
   \<and> executeCommand ''CD ABOUT'' st = executeCommand ''cd about'' st
   \<and> executeCommand ''CD ABOUT'' st =
       Inr (JString ''Navigating to about...'', navigateToSection ''about'' st)"
proof -
  have low: "toLowerCase (trim ''CD ABOUT'') = toLowerCase (trim ''cd about'')"
    by code_simp
  have same: "executeCommand x st = executeCommand y st"
    if "toLowerCase (trim x) = toLowerCase (trim y)" for x y
    using that by (simp add: executeCommand_def)
  have "executeCommand s st = executeCommand (toLowerCase (trim s)) st"
    by (rule same) (simp add: normal_form)
  moreover have "executeCommand ''CD ABOUT'' st = executeCommand ''cd about'' st"
    using low by (rule same)
  ultimately show ?thesis
    using same [of a b] by (simp add: executeCommand_cd_about)
qed

theorem executeCommand_lowercases_line_witness:
  "executeCommand ''  Theme AMBER '' demo_page = executeCommand ''theme amber'' demo_page"
proof -
  have "toLowerCase (trim ''  Theme AMBER '') = toLowerCase (trim ''theme amber'')"
    by code_simp
  with executeCommand_lowercases_line
         [where a = "''  Theme AMBER ''" and b = "''theme amber''" and st = demo_page]
  show ?thesis by blast
qed


section \<open>Properties of navigation\<close>

lemma getElementById_map [simp]:
  "(\<And>e. elem_id (f e) = elem_id e) \<Longrightarrow> getElementById (map f es) i = getElementById es i"
  by (induction es) auto

lemma getElementById_Some:
  "getElementById es i = Some t \<Longrightarrow> t < length es \<and> elem_id (es ! t) = i \<and> i \<noteq> []"
  by (induction es arbitrary: t) (auto split: if_splits)

lemma elem_id_hide [simp]: "elem_id (hide e) = elem_id e"
  by (simp add: hide_def)

lemma elem_id_relink [simp]: "elem_id (relink i e) = elem_id e"
  by (simp add: relink_def)

lemma navigate_missing:
  "getElementById (document st) i = None \<Longrightarrow>
   navigateToSection i st = st\<lparr>document := map hide (document st)\<rparr>"
  by (simp add: navigateToSection_def)

lemma navigate_found:
  "getElementById (document st) i = Some t \<Longrightarrow>
   navigateToSection i st =
     st\<lparr>document := map (relink i) ((map hide (document st))[t := (hide (document st ! t))\<lparr>active := True\<rparr>]),
        currentSection := i\<rparr>"
  by (auto simp: navigateToSection_def Let_def dest: getElementById_Some)

lemma navigate_frame:
  "commandHistory (navigateToSection i st) = commandHistory st \<and>
   historyIndex (navigateToSection i st) = historyIndex st \<and>
   inputValue (navigateToSection i st) = inputValue st"
  by (simp add: navigateToSection_def Let_def split: option.splits)

lemma filter_single:
  "t < length xs \<Longrightarrow> P (xs ! t) \<Longrightarrow> (\<forall>j<length xs. j \<noteq> t \<longrightarrow> \<not> P (xs ! j)) \<Longrightarrow>
   filter P xs = [xs ! t]"
proof (induction xs arbitrary: t)
  case Nil
  then show ?case by simp
next
  case (Cons x xs)
  show ?case
  proof (cases t)
    case 0
    have "\<not> P y" if "y \<in> set xs" for y
    proof -
      from that obtain j where "j < length xs" "xs ! j = y"
        by (auto simp: in_set_conv_nth)
      with Cons.prems(3) [rule_format, of "Suc j"] 0 show ?thesis by auto
    qed
    then have "filter P xs = []" by (simp add: filter_empty_conv)
    with Cons.prems 0 show ?thesis by simp
  next
    case (Suc k)
    from Cons.prems(3) [rule_format, of 0] Suc have "\<not> P x" by simp
    moreover have "filter P xs = [xs ! k]"
    proof (rule Cons.IH)
      show "k < length xs" using Cons.prems(1) Suc by simp
      show "P (xs ! k)" using Cons.prems(2) Suc by simp
      show "\<forall>j<length xs. j \<noteq> k \<longrightarrow> \<not> P (xs ! j)"
        using Cons.prems(3) [rule_format, of "Suc j" for j] Suc by auto
    qed
    ultimately show ?thesis using Suc by simp
  qed
qed

lemma navigate_nth:
  assumes "getElementById (document st) i = Some t" and "j < length (document st)"
  shows "document (navigateToSection i st) ! j =
     relink i (if j = t then (hide (document st ! t))\<lparr>active := True\<rparr> else hide (document st ! j))"
  using assms by (auto simp: navigate_found nth_list_update dest: getElementById_Some)

lemma navigate_length: "length (document (navigateToSection i st)) = length (document st)"
  by (simp add: navigateToSection_def Let_def split: option.splits)

lemma navigate_markup:
  "map (\<lambda>e. (elem_id e, terminal_section e, nav_link e, href e)) (document (navigateToSection i st)) =
   map (\<lambda>e. (elem_id e, terminal_section e, nav_link e, href e)) (document st)"
proof (rule nth_equalityI)
  show "length (map (\<lambda>e. (elem_id e, terminal_section e, nav_link e, href e)) (document (navigateToSection i st))) =
    length (map (\<lambda>e. (elem_id e, terminal_section e, nav_link e, href e)) (document st))"
    by (simp add: navigate_length)
next
  fix j
  assume "j < length (map (\<lambda>e. (elem_id e, terminal_section e, nav_link e, href e)) (document (navigateToSection i st)))"
  then have j: "j < length (document st)" by (simp add: navigate_length)
  show "map (\<lambda>e. (elem_id e, terminal_section e, nav_link e, href e)) (document (navigateToSection i st)) ! j =
    map (\<lambda>e. (elem_id e, terminal_section e, nav_link e, href e)) (document st) ! j"
  proof (cases "getElementById (document st) i")
    case None
    with j show ?thesis by (simp add: navigate_missing hide_def)
  next
    case (Some t)
    with j show ?thesis
      by (simp add: navigate_nth [OF Some j] navigate_length hide_def relink_def)
  qed
qed

text \<open>
  C5. When the element that \<open>getElementById\<close> finds for the id is a section, and sections
  and navigation links are different elements of the markup, then after
  \<open>navigateToSection\<close> the id is recorded as \<open>currentSection\<close>, the section found is
  active and no other section is (so the active sections are that one element), and a
  navigation link is highlighted exactly when its \<open>href\<close> is \<open>#\<close> followed by the id. The
  five section names of the page are instances; the id need not be one of them.
\<close>

theorem navigateToSection_valid:
  assumes found: "getElementById (document st) sectionId = Some t"
    and sec: "terminal_section (document st ! t)"
    and apart: "\<forall>e\<in>set (document st). terminal_section e \<longrightarrow> \<not> nav_link e"
  shows "let st' = navigateToSection sectionId st in
      currentSection st' = sectionId
    \<and> length (document st') = length (document st)
    \<and> elem_id (document st' ! t) = sectionId
    \<and> (\<forall>j<length (document st'). terminal_section (document st' ! j) \<longrightarrow>
          active (document st' ! j) = (j = t))
    \<and> activeSections st' = [document st' ! t]
    \<and> (\<forall>j<length (document st'). nav_link (document st' ! j) \<longrightarrow>
          active (document st' ! j) = (href (document st' ! j) = Some (CHR ''#'' # sectionId)))
    \<and> highlighted st' =
          filter (\<lambda>l. nav_link l \<and> href l = Some (CHR ''#'' # sectionId)) (document st')"
proof -
  let ?st = "navigateToSection sectionId st"
  from found have t: "t < length (document st)" and idt: "elem_id (document st ! t) = sectionId"
    by (auto dest: getElementById_Some)
  from apart t sec have nolink: "\<not> nav_link (document st ! t)"
    by simp
  have nth: "document ?st ! j =
     relink sectionId (if j = t then (hide (document st ! t))\<lparr>active := True\<rparr> else hide (document st ! j))"
    if "j < length (document st)" for j
    using found that by (rule navigate_nth)
  have cur: "currentSection ?st = sectionId"
    using found by (simp add: navigate_found)
  have len: "length (document ?st) = length (document st)"
    by (rule navigate_length)
  have target: "document ?st ! t = (document st ! t)\<lparr>active := True\<rparr>"
    using nth [OF t] sec nolink by (simp add: hide_def relink_def)
  have secs: "\<forall>j<length (document ?st). terminal_section (document ?st ! j) \<longrightarrow>
          active (document ?st ! j) = (j = t)"
    using nolink sec apart by (auto simp: len nth hide_def relink_def)
  have links: "\<forall>j<length (document ?st). nav_link (document ?st ! j) \<longrightarrow>
          active (document ?st ! j) = (href (document ?st ! j) = Some (CHR ''#'' # sectionId))"
    using nolink by (auto simp: len nth hide_def relink_def)
  have "filter (\<lambda>e. terminal_section e \<and> active e) (document ?st) = [document ?st ! t]"
  proof (rule filter_single)
    show "t < length (document ?st)" using t len by simp
    show "terminal_section (document ?st ! t) \<and> active (document ?st ! t)"
      using target sec by simp
    show "\<forall>j<length (document ?st). j \<noteq> t \<longrightarrow>
       \<not> (terminal_section (document ?st ! j) \<and> active (document ?st ! j))"
      using secs by auto
  qed
  then have act: "activeSections ?st = [document ?st ! t]"
    by (simp add: activeSections_def)
  have "(nav_link l \<and> active l) = (nav_link l \<and> href l = Some (CHR ''#'' # sectionId))"
    if "l \<in> set (document ?st)" for l
  proof -
    from that obtain j where "j < length (document ?st)" "document ?st ! j = l"
      by (auto simp: in_set_conv_nth)
    with links show ?thesis by auto
  qed
  then have high: "highlighted ?st =
      filter (\<lambda>l. nav_link l \<and> href l = Some (CHR ''#'' # sectionId)) (document ?st)"
    unfolding highlighted_def by (intro filter_cong) auto
  from cur len target idt secs act links high show ?thesis
    by (simp add: Let_def)
qed

theorem navigateToSection_valid_witness:
  "currentSection (navigateToSection ''about'' demo_page) = ''about''
   \<and> activeSections (navigateToSection ''about'' demo_page) = [section_el ''about'' True]
   \<and> highlighted (navigateToSection ''about'' demo_page) = [link_el ''#about'' True]"
proof -
  have found: "getElementById (document demo_page) ''about'' = Some 3"
    by (simp add: demo_page_def init_page_def demo_document_def link_el_def section_el_def plain_el_def)
  have sec: "terminal_section (document demo_page ! 3)"
    by (simp add: demo_page_def init_page_def demo_document_def link_el_def section_el_def plain_el_def)
  have apart: "\<forall>e\<in>set (document demo_page). terminal_section e \<longrightarrow> \<not> nav_link e"
    by (simp add: demo_page_def init_page_def demo_document_def link_el_def section_el_def plain_el_def)
  have doc: "document (navigateToSection ''about'' demo_page) =
     [link_el ''#home'' False, link_el ''#about'' True,
      section_el ''home'' False, section_el ''about'' True,
      plain_el ''output'', plain_el ''matrix-bg'']"
    by code_simp
  from navigateToSection_valid [OF found sec apart]
  have "currentSection (navigateToSection ''about'' demo_page) = ''about''"
    and "activeSections (navigateToSection ''about'' demo_page) =
       [document (navigateToSection ''about'' demo_page) ! 3]"
    by (simp_all add: Let_def)
  then show ?thesis
    by (simp add: doc highlighted_def link_el_def section_el_def plain_el_def)
qed

lemma navigate_missing_effect:
  assumes "getElementById (document st) i = None"
  shows "activeSections (navigateToSection i st) = []"
    and "currentSection (navigateToSection i st) = currentSection st"
  using assms by (auto simp: navigate_missing activeSections_def filter_empty_conv hide_def)

text \<open>
  C2. An id that names no element does not leave the page as it was: the first loop has
  already taken the active marker off every section when the guard \<open>if (targetSection)\<close>
  is reached. On the sample page, \<open>navigateToSection('nowhere')\<close> leaves no section active
  where \<open>home\<close> was; \<open>currentSection\<close> and the highlighted link stay.
\<close>

theorem navigateToSection_missing_hides_sections:
  "getElementById (document demo_page) ''nowhere'' = None
   \<and> activeSections demo_page = [section_el ''home'' True]
   \<and> activeSections (navigateToSection ''nowhere'' demo_page) = []
   \<and> currentSection (navigateToSection ''nowhere'' demo_page) = currentSection demo_page
   \<and> highlighted (navigateToSection ''nowhere'' demo_page) = highlighted demo_page"
  by code_simp


section \<open>Properties of dispatch\<close>

lemma handler_frame:
  assumes "commands cmd = Some h"
  shows "commandHistory (snd (h args st)) = commandHistory st \<and>
   historyIndex (snd (h args st)) = historyIndex st \<and>
   inputValue (snd (h args st)) = inputValue st"
  using assms
  by (auto simp: commands_def help_cmd_def ls_def cd_def clear_def cls_def whoami_def
      skills_def contact_def matrix_def theme_def hack_def navigate_frame removeOutputLines_def
      toggleMatrixEffect_def changeTheme_def initiateHackingSequence_def Let_def
      split: if_splits list.splits option.splits)

lemma handler_string:
  assumes "commands cmd = Some h"
  shows "\<exists>out. fst (h args st) = JString out"
  using assms
  by (auto simp: commands_def help_cmd_def ls_def cd_def clear_def cls_def whoami_def
      skills_def contact_def matrix_def theme_def hack_def Let_def
      split: if_splits list.splits)

lemma executeCommand_frame:
  assumes "executeCommand s st = Inr (out, st1)"
  shows "commandHistory st1 = commandHistory st \<and> historyIndex st1 = historyIndex st \<and>
   inputValue st1 = inputValue st"
proof -
  obtain cmd args where sp: "split (CHR '' '') (toLowerCase (trim s)) = cmd # args"
    using split_not_Nil [of "CHR '' ''" "toLowerCase (trim s)"] by (cases "split (CHR '' '') (toLowerCase (trim s))") auto
  show ?thesis
  proof (cases "commands cmd")
    case None
    with assms sp show ?thesis
      by (auto simp: executeCommand_def commands_get_def Object_prototype_def split: if_splits)
  next
    case (Some h)
    with assms sp have "h args st = (out, st1)"
      by (simp add: executeCommand_def commands_get_def)
    with handler_frame [OF Some, of args st] show ?thesis by simp
  qed
qed

lemma executeCommand_found:
  "split (CHR '' '') (toLowerCase (trim s)) = cmd # args \<Longrightarrow> commands cmd = Some h \<Longrightarrow>
   executeCommand s st = Inr (h args st)"
  by (simp add: executeCommand_def commands_get_def)

lemma executeCommand_unknown:
  "split (CHR '' '') (toLowerCase (trim s)) = cmd # args \<Longrightarrow> commands cmd = None \<Longrightarrow>
   cmd \<noteq> ''constructor'' \<Longrightarrow> cmd \<noteq> ''__proto__'' \<Longrightarrow>
   executeCommand s st = Inr (JString (notFound cmd), st)"
  by (simp add: executeCommand_def commands_get_def Object_prototype_def)

lemma executeCommand_throws:
  "split (CHR '' '') (toLowerCase (trim s)) = cmd # args \<Longrightarrow>
   (executeCommand s st = Inl e) = (cmd = ''__proto__'')"
  by (cases e)
     (auto simp: executeCommand_def commands_get_def Object_prototype_def commands_def
       split: option.splits)

text \<open>
  C3. \<open>__proto__\<close> is not a command of the registry, yet \<open>commands['__proto__']\<close> is the
  inherited prototype object: truthy, so the fallback is skipped, and not callable, so the
  call throws. \<open>constructor\<close> is not a command either and gives back the argument array
  instead of the command-not-found message.
\<close>

theorem executeCommand_proto_throws:
  "commands ''__proto__'' = None \<and> executeCommand ''__proto__'' st = Inl TypeError
   \<and> commands ''constructor'' = None \<and> executeCommand ''constructor'' st = Inr (JArray [], st)"
  by (simp add: executeCommand_def toLowerCase_def trim_def isWhiteSpace_def lower_unit_def
      commands_get_def commands_def Object_prototype_def)

lemma includes_suffix: "includes_str (p @ t) t"
  unfolding includes_str_def sublist_def
  by (rule exI [of _ p], rule exI [of _ "[]"]) simp

lemma cd_invalid:
  "dir \<notin> set validSections \<Longrightarrow>
   cd (dir # rest) st = (JString (''Error: '' @ dir @ '': No such directory''), st)"
  by (simp add: cd_def)

lemma navigate_shows:
  assumes found: "getElementById (document st) i = Some t"
    and sec: "terminal_section (document st ! t)"
    and apart: "\<forall>e\<in>set (document st). terminal_section e \<longrightarrow> \<not> nav_link e"
  shows "currentSection (navigateToSection i st) = i
    \<and> elem_id (document st ! t) = i
    \<and> activeSections (navigateToSection i st) = [(document st ! t)\<lparr>active := True\<rparr>]
    \<and> highlighted (navigateToSection i st) =
         filter (\<lambda>l. nav_link l \<and> href l = Some (CHR ''#'' # i))
           (document (navigateToSection i st))"
proof -
  let ?doc = "document (navigateToSection i st)"
  from found have t: "t < length (document st)" and idt: "elem_id (document st ! t) = i"
    by (auto dest: getElementById_Some)
  from apart t sec have nolink: "\<not> nav_link (document st ! t)"
    by simp
  have len: "length ?doc = length (document st)"
    by (rule navigate_length)
  have nth: "?doc ! j =
     relink i (if j = t then (hide (document st ! t))\<lparr>active := True\<rparr> else hide (document st ! j))"
    if "j < length (document st)" for j
    using found that by (rule navigate_nth)
  have target: "?doc ! t = (document st ! t)\<lparr>active := True\<rparr>"
    using nth [OF t] sec nolink by (simp add: hide_def relink_def)
  have others: "\<forall>j<length ?doc. j \<noteq> t \<longrightarrow> \<not> (terminal_section (?doc ! j) \<and> active (?doc ! j))"
    using apart by (auto simp: len nth hide_def relink_def)
  have "filter (\<lambda>e. terminal_section e \<and> active e) ?doc = [?doc ! t]"
  proof (rule filter_single)
    show "t < length ?doc" using t len by simp
    show "terminal_section (?doc ! t) \<and> active (?doc ! t)" using target sec by simp
    show "\<forall>j<length ?doc. j \<noteq> t \<longrightarrow> \<not> (terminal_section (?doc ! j) \<and> active (?doc ! j))"
      by (rule others)
  qed
  then have act: "activeSections (navigateToSection i st) = [(document st ! t)\<lparr>active := True\<rparr>]"
    by (simp add: activeSections_def target)
  have links: "\<forall>j<length ?doc. nav_link (?doc ! j) \<longrightarrow>
          active (?doc ! j) = (href (?doc ! j) = Some (CHR ''#'' # i))"
    using nolink by (auto simp: len nth hide_def relink_def)
  have "(nav_link l \<and> active l) = (nav_link l \<and> href l = Some (CHR ''#'' # i))"
    if "l \<in> set ?doc" for l
  proof -
    from that obtain j where "j < length ?doc" "?doc ! j = l"
      by (auto simp: in_set_conv_nth)
    with links show ?thesis by auto
  qed
  then have high: "highlighted (navigateToSection i st) =
      filter (\<lambda>l. nav_link l \<and> href l = Some (CHR ''#'' # i)) ?doc"
    unfolding highlighted_def by (intro filter_cong) auto
  have "currentSection (navigateToSection i st) = i"
    using found by (simp add: navigate_found)
  with idt act high show ?thesis by simp
qed

text \<open>
  C6. \<open>executeCommand("cd about")\<close> returns a string that contains \<open>about\<close> and navigates
  to the about section: the page it leaves is the one \<open>navigateToSection('about')\<close> gives,
  and when the element of id \<open>about\<close> is a section, on markup where sections and navigation
  links are different elements, that section is then the only active one, \<open>currentSection\<close>
  is \<open>about\<close>, and the highlighted links are the navigation links whose \<open>href\<close> is
  \<open>#about\<close>. For every argument outside the five section names the \<open>cd\<close> handler returns
  a string that contains \<open>No such directory\<close> and leaves the page, so \<open>currentSection\<close>, as
  it was; so does \<open>executeCommand\<close> on every line whose command word is \<open>cd\<close> and whose
  lower-cased first argument is outside them, \<open>cd nowhere\<close> among them.
\<close>

theorem cd_contract:
  "executeCommand ''cd about'' st =
     Inr (JString ''Navigating to about...'', navigateToSection ''about'' st)
   \<and> includes_str ''Navigating to about...'' ''about''
   \<and> (\<forall>t. getElementById (document st) ''about'' = Some t \<longrightarrow>
         currentSection (navigateToSection ''about'' st) = ''about'')
   \<and> (\<forall>t. getElementById (document st) ''about'' = Some t
          \<and> terminal_section (document st ! t)
          \<and> (\<forall>e\<in>set (document st). terminal_section e \<longrightarrow> \<not> nav_link e) \<longrightarrow>
         (\<exists>out st'. executeCommand ''cd about'' st = Inr (JString out, st')
            \<and> includes_str out ''about''
            \<and> currentSection st' = ''about''
            \<and> elem_id (document st ! t) = ''about''
            \<and> activeSections st' = [(document st ! t)\<lparr>active := True\<rparr>]
            \<and> highlighted st' =
                 filter (\<lambda>l. nav_link l \<and> href l = Some ''#about'') (document st')))
   \<and> (dir \<notin> set validSections \<longrightarrow>
         cd (dir # rest) st = (JString (''Error: '' @ dir @ '': No such directory''), st)
         \<and> includes_str (''Error: '' @ dir @ '': No such directory'') ''No such directory''
         \<and> currentSection (snd (cd (dir # rest) st)) = currentSection st)
   \<and> cd [] st = (JString ''Error: undefined: No such directory'', st)
   \<and> (split (CHR '' '') (toLowerCase (trim input)) = ''cd'' # dir # rest
        \<and> dir \<notin> set validSections \<longrightarrow>
         executeCommand input st =
           Inr (JString (''Error: '' @ dir @ '': No such directory''), st))
   \<and> executeCommand ''cd nowhere'' st = Inr (JString ''Error: nowhere: No such directory'', st)"
proof -
  have a: "includes_str ''Navigating to about...'' ''about''"
    by code_simp
  have b: "\<forall>t. getElementById (document st) ''about'' = Some t \<longrightarrow>
         currentSection (navigateToSection ''about'' st) = ''about''"
    by (simp add: navigate_found)
  have n: "\<exists>out st'. executeCommand ''cd about'' st = Inr (JString out, st')
            \<and> includes_str out ''about''
            \<and> currentSection st' = ''about''
            \<and> elem_id (document st ! t) = ''about''
            \<and> activeSections st' = [(document st ! t)\<lparr>active := True\<rparr>]
            \<and> highlighted st' =
                 filter (\<lambda>l. nav_link l \<and> href l = Some ''#about'') (document st')"
    if "getElementById (document st) ''about'' = Some t"
      and "terminal_section (document st ! t)"
      and "\<forall>e\<in>set (document st). terminal_section e \<longrightarrow> \<not> nav_link e"
    for t
    using navigate_shows [OF that] a executeCommand_cd_about [of st] by simp
  have c: "includes_str (''Error: '' @ dir @ '': No such directory'') ''No such directory''"
    using includes_suffix [of "''Error: '' @ dir @ '': ''" "''No such directory''"] by simp
  have d: "cd [] st = (JString ''Error: undefined: No such directory'', st)"
    by (simp add: cd_def)
  have e: "executeCommand input st =
           Inr (JString (''Error: '' @ dir @ '': No such directory''), st)"
    if "split (CHR '' '') (toLowerCase (trim input)) = ''cd'' # dir # rest"
      and "dir \<notin> set validSections"
  proof -
    have "commands ''cd'' = Some cd" by (simp add: commands_def)
    with that(1) have "executeCommand input st = Inr (cd (dir # rest) st)"
      by (rule executeCommand_found)
    with that(2) show ?thesis by (simp add: cd_invalid)
  qed
  have f: "executeCommand ''cd nowhere'' st = Inr (JString ''Error: nowhere: No such directory'', st)"
    by (simp add: executeCommand_def toLowerCase_def trim_def isWhiteSpace_def lower_unit_def
      commands_get_def commands_def cd_def validSections_def)
  have g: "dir \<notin> set validSections \<longrightarrow>
         cd (dir # rest) st = (JString (''Error: '' @ dir @ '': No such directory''), st)
         \<and> includes_str (''Error: '' @ dir @ '': No such directory'') ''No such directory''
         \<and> currentSection (snd (cd (dir # rest) st)) = currentSection st"
    using c by (simp add: cd_invalid)
  from b n d e f g show ?thesis
    unfolding executeCommand_cd_about using a by blast
qed

theorem cd_contract_witness:
  "cd [''nowhere''] demo_page = (JString ''Error: nowhere: No such directory'', demo_page)
   \<and> executeCommand ''cd  Nowhere else'' demo_page =
       Inr (JString ''Error: : No such directory'', demo_page)
   \<and> (\<exists>out st'. executeCommand ''cd about'' demo_page = Inr (JString out, st')
        \<and> includes_str out ''about''
        \<and> currentSection st' = ''about''
        \<and> activeSections st' = [section_el ''about'' True])"
proof -
  have v: "''nowhere'' \<notin> set validSections" "[] \<notin> set validSections"
    by (simp_all add: validSections_def)
  have sp: "split (CHR '' '') (toLowerCase (trim ''cd  Nowhere else'')) = ''cd'' # [] # [''nowhere'', ''else'']"
    by code_simp
  have found: "getElementById (document demo_page) ''about'' = Some 3"
    by code_simp
  have sec: "terminal_section (document demo_page ! 3)"
    by code_simp
  have apart: "\<forall>e\<in>set (document demo_page). terminal_section e \<longrightarrow> \<not> nav_link e"
    by (simp add: demo_page_def init_page_def demo_document_def link_el_def section_el_def
        plain_el_def)
  have el: "(document demo_page ! 3)\<lparr>active := True\<rparr> = section_el ''about'' True"
    by code_simp
  from cd_contract [where dir = "''nowhere''" and rest = "[]" and st = demo_page] v
  have "cd [''nowhere''] demo_page = (JString ''Error: nowhere: No such directory'', demo_page)"
    by simp
  moreover from cd_contract [where dir = "[]" and rest = "[''nowhere'', ''else'']"
      and st = demo_page and input = "''cd  Nowhere else''"] v sp
  have "executeCommand ''cd  Nowhere else'' demo_page =
       Inr (JString ''Error: : No such directory'', demo_page)"
    by simp
  moreover from cd_contract [where st = demo_page] found sec apart
  have "\<exists>out st'. executeCommand ''cd about'' demo_page = Inr (JString out, st')
        \<and> includes_str out ''about''
        \<and> currentSection st' = ''about''
        \<and> activeSections st' = [(document demo_page ! 3)\<lparr>active := True\<rparr>]"
    by blast
  ultimately show ?thesis unfolding el by blast
qed

text \<open>
  C4, as the code has it. The trimmed line is cut at every single space: the pieces, joined
  by one space each, give the trimmed line back, and no piece holds a space, so two spaces
  in a row give an empty piece and a tab separates nothing. The first piece is the command
  word, looked up in lower case in the Command Registry; when it is found, the registered
  handler is called with the other pieces, in lower case too, what it returns is returned,
  and that is a string.
\<close>

theorem executeCommand_dispatch:
  "\<exists>w ws. split (CHR '' '') (trim input) = w # ws
      \<and> join '' '' (w # ws) = trim input
      \<and> (\<forall>x\<in>set (w # ws). CHR '' '' \<notin> set x)
      \<and> (\<forall>h. commands (toLowerCase w) = Some h \<longrightarrow>
            executeCommand input st = Inr (h (map toLowerCase ws) st)
            \<and> (\<exists>out. fst (h (map toLowerCase ws) st) = JString out))"
proof -
  obtain w ws where sp: "split (CHR '' '') (trim input) = w # ws"
    using split_not_Nil [of "CHR '' ''" "trim input"]
    by (cases "split (CHR '' '') (trim input)") auto
  have "join '' '' (w # ws) = trim input"
    using join_split [of "CHR '' ''" "trim input"] sp by simp
  moreover have "\<forall>x\<in>set (w # ws). CHR '' '' \<notin> set x"
    using split_no_sep [of _ "CHR '' ''" "trim input"] sp by auto
  moreover have low: "split (CHR '' '') (toLowerCase (trim input)) = toLowerCase w # map toLowerCase ws"
    by (simp add: split_toLowerCase sp)
  have "\<forall>h. commands (toLowerCase w) = Some h \<longrightarrow>
            executeCommand input st = Inr (h (map toLowerCase ws) st)
            \<and> (\<exists>out. fst (h (map toLowerCase ws) st) = JString out)"
    using executeCommand_found [OF low] handler_string by blast
  ultimately show ?thesis using sp by blast
qed

theorem executeCommand_dispatch_witness:
  "executeCommand ''CD About'' demo_page = Inr (cd [''about''] demo_page)"
proof -
  have sp: "split (CHR '' '') (trim ''CD About'') = [''CD'', ''About'']"
    by code_simp
  have lw: "toLowerCase ''CD'' = ''cd''" "map toLowerCase [''About''] = [''about'']"
    by code_simp+
  have reg: "commands ''cd'' = Some cd"
    by (simp add: commands_def)
  from executeCommand_dispatch [of "''CD About''" demo_page]
  obtain w ws where "split (CHR '' '') (trim ''CD About'') = w # ws"
    and "\<forall>h. commands (toLowerCase w) = Some h \<longrightarrow>
            executeCommand ''CD About'' demo_page = Inr (h (map toLowerCase ws) demo_page)
            \<and> (\<exists>out. fst (h (map toLowerCase ws) demo_page) = JString out)"
    by blast
  with sp lw reg show ?thesis by simp
qed

text \<open>
  C4, as the claim words it, fails: on \<open>cd  about\<close>, with two spaces, splitting on white
  space gives the argument \<open>about\<close> and navigates, while the script passes the empty first
  piece to \<open>cd\<close> and reports no such directory.
\<close>

theorem executeCommand_splits_at_single_spaces:
  "executeCommand ''cd  about'' demo_page = Inr (JString ''Error: : No such directory'', demo_page)
   \<and> spec_executeCommand ''cd  about'' demo_page =
       Inr (JString ''Navigating to about...'', navigateToSection ''about'' demo_page)
   \<and> executeCommand ''cd  about'' demo_page \<noteq> spec_executeCommand ''cd  about'' demo_page"
  by code_simp


section \<open>Properties of the input handler\<close>

lemma displayOutput_frame:
  "commandHistory (displayOutput out st) = commandHistory st \<and>
   historyIndex (displayOutput out st) = historyIndex st \<and>
   inputValue (displayOutput out st) = inputValue st"
  by (simp add: displayOutput_def)

lemma fire_Enter_blank:
  "trim (inputValue st) = [] \<Longrightarrow> fire (Keydown ''Enter'') st = st"
  by (simp add: handleTerminalInput_def)

lemma fire_Enter_throw:
  "executeCommand (trim (inputValue st)) st = Inl e \<Longrightarrow> fire (Keydown ''Enter'') st = st"
  by (simp add: handleTerminalInput_def Let_def)

lemma fire_Enter_dispatch:
  assumes "trim (inputValue st) \<noteq> []"
    and "executeCommand (trim (inputValue st)) st = Inr (out, st1)"
  shows "fire (Keydown ''Enter'') st =
     (displayOutput out st1)\<lparr>commandHistory := commandHistory st @ [trim (inputValue st)],
        historyIndex := int (length (commandHistory st)) + 1, inputValue := []\<rparr>"
  using assms executeCommand_frame [OF assms(2)]
  by (simp add: handleTerminalInput_def Let_def displayOutput_frame)

lemma fire_ArrowUp:
  "fire (Keydown ''ArrowUp'') st =
     (if historyIndex st > 0
      then st\<lparr>historyIndex := historyIndex st - 1,
              inputValue := at (commandHistory st) (historyIndex st - 1)\<rparr>
      else st)"
  by (simp add: handleTerminalInput_def Let_def)

lemma fire_ArrowDown:
  "fire (Keydown ''ArrowDown'') st =
     (if historyIndex st < int (length (commandHistory st)) - 1
      then st\<lparr>historyIndex := historyIndex st + 1,
              inputValue := at (commandHistory st) (historyIndex st + 1)\<rparr>
      else st\<lparr>historyIndex := int (length (commandHistory st)), inputValue := []\<rparr>)"
  by (simp add: handleTerminalInput_def Let_def)

lemma fire_other_key:
  "key \<noteq> ''Enter'' \<Longrightarrow> key \<noteq> ''ArrowUp'' \<Longrightarrow> key \<noteq> ''ArrowDown'' \<Longrightarrow>
   fire (Keydown key) st = st"
  by (simp add: handleTerminalInput_def)

lemma enter_unknown:
  assumes "trim s \<noteq> []"
    and "split (CHR '' '') (toLowerCase (trim s)) = cmd # args"
    and "commands cmd = None" and "cmd \<noteq> ''constructor''" and "cmd \<noteq> ''__proto__''"
  shows "enter s st =
     (displayOutput (JString (notFound cmd)) (st\<lparr>inputValue := s\<rparr>))
       \<lparr>commandHistory := commandHistory st @ [trim s],
        historyIndex := int (length (commandHistory st)) + 1, inputValue := []\<rparr>"
proof -
  let ?st = "st\<lparr>inputValue := s\<rparr>"
  from assms(2) have "split (CHR '' '') (toLowerCase (trim (trim s))) = cmd # args"
    by (simp add: trim_idem)
  then have "executeCommand (trim s) ?st = Inr (JString (notFound cmd), ?st)"
    using assms(3-5) by (rule executeCommand_unknown)
  with assms(1) fire_Enter_dispatch [of ?st "JString (notFound cmd)" ?st]
  show ?thesis by (simp add: enter_def)
qed

lemma enter_letter:
  assumes "c \<in> {CHR ''a'', CHR ''b'', CHR ''c''}"
  shows "enter [c] st =
     (displayOutput (JString (notFound [c])) (st\<lparr>inputValue := [c]\<rparr>))
       \<lparr>commandHistory := commandHistory st @ [[c]],
        historyIndex := int (length (commandHistory st)) + 1, inputValue := []\<rparr>"
proof -
  from assms have t: "trim [c] = [c]" and l: "toLowerCase [c] = [c]"
    by (auto simp: trim_def isWhiteSpace_def toLowerCase_def lower_unit_def)
  from assms have sp: "split (CHR '' '') (toLowerCase (trim [c])) = [c] # []"
    unfolding t l by auto
  from assms have "commands [c] = None"
    by (auto simp: commands_def)
  with enter_unknown [of "[c]" "[c]" "[]" st] t sp show ?thesis by simp
qed


lemma enter_letter_fields:
  assumes "c \<in> {CHR ''a'', CHR ''b'', CHR ''c''}"
  shows "commandHistory (enter [c] st) = commandHistory st @ [[c]]"
    and "historyIndex (enter [c] st) = int (length (commandHistory st)) + 1"
    and "inputValue (enter [c] st) = []"
  by (simp_all add: enter_letter [OF assms])

lemma up_fields:
  assumes "0 < historyIndex st"
  shows "historyIndex (fire (Keydown ''ArrowUp'') st) = historyIndex st - 1"
    and "commandHistory (fire (Keydown ''ArrowUp'') st) = commandHistory st"
    and "inputValue (fire (Keydown ''ArrowUp'') st) = at (commandHistory st) (historyIndex st - 1)"
  using assms by (simp_all add: fire_ArrowUp del: fire.simps)

lemma up_stuck: "historyIndex st \<le> 0 \<Longrightarrow> fire (Keydown ''ArrowUp'') st = st"
  by (simp add: fire_ArrowUp del: fire.simps)

lemma down_fields:
  assumes "historyIndex st < int (length (commandHistory st)) - 1"
  shows "historyIndex (fire (Keydown ''ArrowDown'') st) = historyIndex st + 1"
    and "commandHistory (fire (Keydown ''ArrowDown'') st) = commandHistory st"
    and "inputValue (fire (Keydown ''ArrowDown'') st) = at (commandHistory st) (historyIndex st + 1)"
  using assms by (simp_all add: fire_ArrowDown del: fire.simps)

lemma down_end:
  assumes "\<not> historyIndex st < int (length (commandHistory st)) - 1"
  shows "historyIndex (fire (Keydown ''ArrowDown'') st) = int (length (commandHistory st))"
    and "commandHistory (fire (Keydown ''ArrowDown'') st) = commandHistory st"
    and "inputValue (fire (Keydown ''ArrowDown'') st) = []"
  using assms by (simp_all add: fire_ArrowDown del: fire.simps)

text \<open>
  C7. On a page whose history is empty, after the lines \<open>a\<close>, \<open>b\<close>, \<open>c\<close> are entered in order
  the history holds them and the cursor is 3; ArrowUp then puts \<open>c\<close>, \<open>b\<close>, \<open>a\<close> in the input
  field, a fourth ArrowUp changes nothing at all, ArrowDown puts \<open>b\<close>, then \<open>c\<close>, and the
  next ArrowDown empties the field and sets the cursor to the length of the history.
\<close>

theorem history_recall:
  assumes "commandHistory st = []"
  shows "let s0 = enter ''c'' (enter ''b'' (enter ''a'' st));
       up1 = fire (Keydown ''ArrowUp'') s0;
       up2 = fire (Keydown ''ArrowUp'') up1;
       up3 = fire (Keydown ''ArrowUp'') up2;
       up4 = fire (Keydown ''ArrowUp'') up3;
       down1 = fire (Keydown ''ArrowDown'') up4;
       down2 = fire (Keydown ''ArrowDown'') down1;
       down3 = fire (Keydown ''ArrowDown'') down2
   in commandHistory s0 = [''a'', ''b'', ''c''] \<and> historyIndex s0 = 3 \<and> inputValue s0 = []
    \<and> inputValue up1 = ''c'' \<and> inputValue up2 = ''b'' \<and> inputValue up3 = ''a''
    \<and> up4 = up3
    \<and> inputValue down1 = ''b'' \<and> inputValue down2 = ''c''
    \<and> inputValue down3 = [] \<and> historyIndex down3 = int (length (commandHistory down3))
    \<and> commandHistory down3 = [''a'', ''b'', ''c'']"
proof -
  define s0 where "s0 = enter ''c'' (enter ''b'' (enter ''a'' st))"
  define up1 where "up1 = fire (Keydown ''ArrowUp'') s0"
  define up2 where "up2 = fire (Keydown ''ArrowUp'') up1"
  define up3 where "up3 = fire (Keydown ''ArrowUp'') up2"
  define up4 where "up4 = fire (Keydown ''ArrowUp'') up3"
  define down1 where "down1 = fire (Keydown ''ArrowDown'') up4"
  define down2 where "down2 = fire (Keydown ''ArrowDown'') down1"
  define down3 where "down3 = fire (Keydown ''ArrowDown'') down2"
  have s0: "commandHistory s0 = [''a'', ''b'', ''c'']" "historyIndex s0 = 3" "inputValue s0 = []"
    using assms by (simp_all add: s0_def enter_letter_fields)
  have up1: "commandHistory up1 = [''a'', ''b'', ''c'']" "historyIndex up1 = 2"
      "inputValue up1 = ''c''"
    unfolding up1_def using s0 by (simp_all add: up_fields at_def del: fire.simps)
  have up2: "commandHistory up2 = [''a'', ''b'', ''c'']" "historyIndex up2 = 1"
      "inputValue up2 = ''b''"
    unfolding up2_def using up1 by (simp_all add: up_fields at_def del: fire.simps)
  have up3: "commandHistory up3 = [''a'', ''b'', ''c'']" "historyIndex up3 = 0"
      "inputValue up3 = ''a''"
    unfolding up3_def using up2 by (simp_all add: up_fields at_def del: fire.simps)
  have up4: "up4 = up3"
    unfolding up4_def using up3 by (simp add: up_stuck del: fire.simps)
  have down1: "commandHistory down1 = [''a'', ''b'', ''c'']" "historyIndex down1 = 1"
      "inputValue down1 = ''b''"
    unfolding down1_def up4 using up3 by (simp_all add: down_fields at_def del: fire.simps)
  have down2: "commandHistory down2 = [''a'', ''b'', ''c'']" "historyIndex down2 = 2"
      "inputValue down2 = ''c''"
    unfolding down2_def using down1 by (simp_all add: down_fields at_def del: fire.simps)
  have down3: "commandHistory down3 = [''a'', ''b'', ''c'']" "historyIndex down3 = 3"
      "inputValue down3 = []"
    unfolding down3_def using down2 by (simp_all add: down_end del: fire.simps)
  from s0 up1 up2 up3 up4 down1 down2 down3 show ?thesis
    unfolding Let_def s0_def [symmetric] up1_def [symmetric] up2_def [symmetric]
      up3_def [symmetric] up4_def [symmetric] down1_def [symmetric] down2_def [symmetric]
      down3_def [symmetric]
    by simp
qed

theorem history_recall_witness:
  "inputValue (run [Edit ''a'', Keydown ''Enter'', Edit ''b'', Keydown ''Enter'',
       Edit ''c'', Keydown ''Enter'', Keydown ''ArrowUp'', Keydown ''ArrowUp''] demo_page) = ''b''"
proof -
  have "commandHistory demo_page = []"
    by (simp add: demo_page_def init_page_def)
  from history_recall [OF this]
  have "inputValue (fire (Keydown ''ArrowUp'') (fire (Keydown ''ArrowUp'')
          (enter ''c'' (enter ''b'' (enter ''a'' demo_page))))) = ''b''"
    unfolding Let_def by blast
  then show ?thesis
    by (simp add: run_def enter_def del: fire.simps)
qed

lemma executeCommand_clear:
  "executeCommand ''clear'' st = Inr (JString [], removeOutputLines st)"
  by (simp add: executeCommand_def toLowerCase_def trim_def isWhiteSpace_def lower_unit_def
      commands_get_def commands_def clear_def)

lemma enter_clear_transcript:
  assumes "getElementById (document st) ''output'' = Some t"
  shows "transcript (enter ''clear'' st) =
     bootLines st @ [\<lparr>terminal_output_line = True, textContent = []\<rparr>]"
proof -
  let ?st = "st\<lparr>inputValue := ''clear''\<rparr>"
  have t: "trim ''clear'' = ''clear''"
    by (simp add: trim_def isWhiteSpace_def)
  have "fire (Keydown ''Enter'') ?st =
     (displayOutput (JString []) (removeOutputLines ?st))\<lparr>commandHistory := commandHistory ?st @ [trim (inputValue ?st)],
        historyIndex := int (length (commandHistory ?st)) + 1, inputValue := []\<rparr>"
    by (rule fire_Enter_dispatch) (simp_all add: t executeCommand_clear)
  with assms show ?thesis
    by (simp add: enter_def displayOutput_def removeOutputLines_def bootLines_def)
qed

text \<open>
  C1. The \<open>clear\<close> handler removes the command output and returns the empty string, but
  \<open>handleTerminalInput\<close> passes every result to \<open>displayOutput\<close>, which appends a \<open>pre\<close>
  element whatever the text: on the sample page, after \<open>ls\<close> and then \<open>clear\<close> the
  transcript is the boot line followed by one empty output line, not the boot line alone.
\<close>

theorem clear_appends_empty_line:
  "transcript (enter ''ls'' demo_page) =
     demo_boot @ [\<lparr>terminal_output_line = True,
                   textContent = ''home/  about/  projects/  blog/  contact/''\<rparr>]
   \<and> transcript (enter ''clear'' (enter ''ls'' demo_page)) =
     demo_boot @ [\<lparr>terminal_output_line = True, textContent = []\<rparr>]
   \<and> transcript (enter ''clear'' (enter ''ls'' demo_page)) \<noteq> bootLines (enter ''ls'' demo_page)"
  by code_simp

lemma fire_key_cursor:
  assumes "cursorUnset st \<or> cursorInRange st"
  shows "cursorInRange (fire (Keydown key) st) \<or> (cursorUnset st \<and> fire (Keydown key) st = st)"
proof -
  consider "key = ''Enter''" | "key = ''ArrowUp''" | "key = ''ArrowDown''"
    | "key \<noteq> ''Enter''" "key \<noteq> ''ArrowUp''" "key \<noteq> ''ArrowDown''"
    by blast
  then show ?thesis
  proof cases
    case 1
    show ?thesis
    proof (cases "trim (inputValue st) = []")
      case True
      with assms 1 show ?thesis by (auto simp: fire_Enter_blank simp del: fire.simps)
    next
      case False
      show ?thesis
      proof (cases "executeCommand (trim (inputValue st)) st")
        case (Inl e)
        with assms 1 show ?thesis by (auto simp: fire_Enter_throw simp del: fire.simps)
      next
        case (Inr r)
        then obtain out st1 where "executeCommand (trim (inputValue st)) st = Inr (out, st1)"
          by (cases r) simp
        with False 1 show ?thesis
          by (simp add: fire_Enter_dispatch cursorInRange_def del: fire.simps)
      qed
    qed
  next
    case 2
    with assms show ?thesis
      by (auto simp: fire_ArrowUp cursorInRange_def cursorUnset_def simp del: fire.simps)
  next
    case 3
    with assms show ?thesis
      by (auto simp: fire_ArrowDown cursorInRange_def cursorUnset_def simp del: fire.simps)
  next
    case 4
    with assms show ?thesis by (auto simp: fire_other_key simp del: fire.simps)
  qed
qed

lemma fire_inv:
  assumes "cursorUnset st \<or> cursorInRange st"
  shows "cursorUnset (fire ev st) \<or> cursorInRange (fire ev st)"
proof (cases ev)
  case (Keydown key)
  with fire_key_cursor [OF assms, of key] show ?thesis by auto
next
  case (Edit s)
  with assms show ?thesis by (simp add: cursorInRange_def cursorUnset_def)
next
  case (Navigate i)
  with assms show ?thesis by (simp add: cursorInRange_def cursorUnset_def navigate_frame)
qed

lemma run_snoc: "run (evs @ [ev]) st = fire ev (run evs st)"
  by (simp add: run_def)

lemma run_inv:
  "cursorUnset st \<or> cursorInRange st \<Longrightarrow>
   cursorUnset (run evs st) \<or> cursorInRange (run evs st)"
proof (induction evs rule: rev_induct)
  case Nil
  then show ?case by (simp add: run_def)
next
  case (snoc ev evs)
  then show ?case unfolding run_snoc by (intro fire_inv) simp
qed

lemma fire_history:
  "commandHistory (fire ev st) = commandHistory st \<or>
   (ev = Keydown ''Enter'' \<and> commandHistory (fire ev st) = commandHistory st @ [trim (inputValue st)])"
proof (cases ev)
  case (Keydown key)
  show ?thesis
  proof (cases "key = ''Enter''")
    case True
    show ?thesis
    proof (cases "trim (inputValue st) = []")
      case True
      with Keydown \<open>key = ''Enter''\<close> show ?thesis by (simp add: fire_Enter_blank del: fire.simps)
    next
      case False
      show ?thesis
      proof (cases "executeCommand (trim (inputValue st)) st")
        case (Inl e)
        with Keydown True show ?thesis by (simp add: fire_Enter_throw del: fire.simps)
      next
        case (Inr r)
        then obtain out st1 where "executeCommand (trim (inputValue st)) st = Inr (out, st1)"
          by (cases r) simp
        with False Keydown True show ?thesis
          by (simp add: fire_Enter_dispatch del: fire.simps)
      qed
    qed
  next
    case False
    with Keydown show ?thesis
      by (cases "key = ''ArrowUp''"; cases "key = ''ArrowDown''")
         (simp_all add: fire_ArrowUp fire_ArrowDown fire_other_key del: fire.simps)
  qed
next
  case (Edit s)
  then show ?thesis by simp
next
  case (Navigate i)
  then show ?thesis by (simp add: navigate_frame)
qed

lemma fire_prefix: "prefix (commandHistory st) (commandHistory (fire ev st))"
  using fire_history [of ev st] by auto

lemma run_prefix: "prefix (commandHistory st) (commandHistory (run evs st))"
proof (induction evs rule: rev_induct)
  case Nil
  then show ?case by (simp add: run_def)
next
  case (snoc ev evs)
  then show ?case unfolding run_snoc using fire_prefix prefix_order.trans by blast
qed

text \<open>
  C8. In every state reached from the loaded page by key presses in the input field, edits
  of the field and navigation calls, the cursor is either still unset (it is -1 and the
  history is empty) or lies between 0 and the length of the history; from such a state a
  key press leaves the cursor in that range, or the cursor was unset and the key changed
  nothing. The history after an event, and after any run of events, has the history before
  as a prefix; only Enter changes it, by appending the trimmed input.
\<close>

theorem history_append_only_cursor_in_range:
  "(cursorUnset (run evs (init_page els boot)) \<or> cursorInRange (run evs (init_page els boot)))
   \<and> ((cursorUnset st \<or> cursorInRange st) \<longrightarrow>
        cursorInRange (fire (Keydown key) st) \<or> (cursorUnset st \<and> fire (Keydown key) st = st))
   \<and> prefix (commandHistory st) (commandHistory (fire ev st))
   \<and> prefix (commandHistory st) (commandHistory (run evs st))
   \<and> (ev \<noteq> Keydown ''Enter'' \<longrightarrow> commandHistory (fire ev st) = commandHistory st)
   \<and> (commandHistory (fire (Keydown ''Enter'') st) = commandHistory st
        \<or> commandHistory (fire (Keydown ''Enter'') st) = commandHistory st @ [trim (inputValue st)])"
proof -
  have "cursorUnset (init_page els boot)"
    by (simp add: cursorUnset_def init_page_def)
  then have "cursorUnset (run evs (init_page els boot)) \<or> cursorInRange (run evs (init_page els boot))"
    by (intro run_inv) simp
  moreover have "ev \<noteq> Keydown ''Enter'' \<longrightarrow> commandHistory (fire ev st) = commandHistory st"
    using fire_history [of ev st] by blast
  moreover have "commandHistory (fire (Keydown ''Enter'') st) = commandHistory st
        \<or> commandHistory (fire (Keydown ''Enter'') st) = commandHistory st @ [trim (inputValue st)]"
    using fire_history [of "Keydown ''Enter''" st] by blast
  ultimately show ?thesis
    using fire_key_cursor [of st key] fire_prefix [of st ev] run_prefix [of st evs] by blast
qed

theorem history_append_only_cursor_in_range_witness:
  "cursorInRange (run [Edit ''ls'', Keydown ''Enter'', Keydown ''ArrowUp''] demo_page)
   \<and> commandHistory (fire (Keydown ''ArrowUp'') demo_page) = commandHistory demo_page"
proof -
  have "\<not> cursorUnset (run [Edit ''ls'', Keydown ''Enter'', Keydown ''ArrowUp''] demo_page)"
    by code_simp
  moreover have "Keydown ''ArrowUp'' \<noteq> Keydown ''Enter''"
    by simp
  ultimately show ?thesis
    using history_append_only_cursor_in_range
      [where evs = "[Edit ''ls'', Keydown ''Enter'', Keydown ''ArrowUp'']" and els = demo_document
        and boot = demo_boot and ev = "Keydown ''ArrowUp''" and st = demo_page]
    unfolding demo_page_def [symmetric] by blast
qed


section \<open>Properties of the key-sequence watcher\<close>

lemma konamiCode_length: "length konamiCode = 10"
  by (simp add: konamiCode_def)

lemma konami_advance:
  assumes "Suc (konamiIndex st) < length konamiCode"
  shows "konamiListener (konamiCode ! konamiIndex st) st = st\<lparr>konamiIndex := Suc (konamiIndex st)\<rparr>"
  using assms by (simp add: konamiListener_def Let_def)

lemma konami_complete:
  assumes "Suc (konamiIndex st) = length konamiCode"
  shows "konamiListener (konamiCode ! konamiIndex st) st = (activateKonamiCode st)\<lparr>konamiIndex := 0\<rparr>"
  using assms
  by (simp add: konamiListener_def Let_def activateKonamiCode_def displayOutput_def)

lemma konami_mismatch:
  "\<not> (konamiIndex st < length konamiCode \<and> key = konamiCode ! konamiIndex st) \<Longrightarrow>
   konamiListener key st = st\<lparr>konamiIndex := 0\<rparr>"
  by (auto simp: konamiListener_def)

lemma feed_snoc: "feed (keys @ [key]) st = konamiListener key (feed keys st)"
  by (simp add: feed_def)

lemma feed_append: "feed (xs @ ys) st = feed ys (feed xs st)"
  by (simp add: feed_def)

lemma feed_prefix:
  assumes "konamiIndex st = 0"
  shows "k < length konamiCode \<Longrightarrow> feed (take k konamiCode) st = st\<lparr>konamiIndex := k\<rparr>"
proof (induction k)
  case 0
  have "st\<lparr>konamiIndex := konamiIndex st\<rparr> = st" by simp
  with assms show ?case by (simp add: feed_def)
next
  case (Suc k)
  then have k: "k < length konamiCode" by simp
  have "feed (take (Suc k) konamiCode) st = konamiListener (konamiCode ! k) (feed (take k konamiCode) st)"
    using k by (simp add: take_Suc_conv_app_nth feed_snoc)
  also have "\<dots> = konamiListener (konamiCode ! k) (st\<lparr>konamiIndex := k\<rparr>)"
    using Suc.IH k by simp
  also have "\<dots> = st\<lparr>konamiIndex := Suc k\<rparr>"
    using konami_advance [of "st\<lparr>konamiIndex := k\<rparr>"] Suc.prems by simp
  finally show ?case .
qed

lemma feed_konamiCode:
  assumes "konamiIndex st = 0"
  shows "feed konamiCode st = activateKonamiCode st"
proof -
  have "konamiCode = take 9 konamiCode @ [konamiCode ! 9]"
    by (simp add: konamiCode_def)
  then have "feed konamiCode st = konamiListener (konamiCode ! 9) (feed (take 9 konamiCode) st)"
    using feed_snoc [of "take 9 konamiCode" "konamiCode ! 9" st] by simp
  also have "\<dots> = konamiListener (konamiCode ! 9) (st\<lparr>konamiIndex := 9\<rparr>)"
    using feed_prefix [OF assms, of 9] by (simp add: konamiCode_length)
  also have "\<dots> = (activateKonamiCode (st\<lparr>konamiIndex := 9\<rparr>))\<lparr>konamiIndex := 0\<rparr>"
    using konami_complete [of "st\<lparr>konamiIndex := 9\<rparr>"] by (simp add: konamiCode_length)
  also have "\<dots> = activateKonamiCode (st\<lparr>konamiIndex := konamiIndex st\<rparr>)"
    unfolding assms by (simp add: activateKonamiCode_def displayOutput_def Let_def)
  finally show ?thesis by simp
qed

lemma activate_index: "konamiIndex (activateKonamiCode st) = konamiIndex st"
  by (simp add: activateKonamiCode_def displayOutput_def Let_def)

lemma activate_funpow_index: "konamiIndex ((activateKonamiCode ^^ n) st) = konamiIndex st"
  by (induction n) (simp_all add: activate_index)

lemma feed_repeat:
  assumes "konamiIndex st = 0"
  shows "feed (concat (replicate n konamiCode)) st = (activateKonamiCode ^^ n) st"
proof (induction n)
  case 0
  then show ?case by (simp add: feed_def)
next
  case (Suc n)
  have "replicate (Suc n) konamiCode = replicate n konamiCode @ [konamiCode]"
    by (simp add: replicate_append_same)
  then have "concat (replicate (Suc n) konamiCode) = concat (replicate n konamiCode) @ konamiCode"
    by (simp only: concat_append) simp
  then have "feed (concat (replicate (Suc n) konamiCode)) st
      = feed konamiCode (feed (concat (replicate n konamiCode)) st)"
    by (simp add: feed_append)
  also have "\<dots> = feed konamiCode ((activateKonamiCode ^^ n) st)"
    using Suc.IH by simp
  also have "\<dots> = activateKonamiCode ((activateKonamiCode ^^ n) st)"
    by (rule feed_konamiCode) (simp add: activate_funpow_index assms)
  finally show ?case by simp
qed

text \<open>
  C9. From progress zero, the ten keys of the sequence in order have the effect of
  \<open>activateKonamiCode\<close> applied once, with the progress back at zero and one style element
  more; a shorter prefix of k keys only moves the progress to k; n repetitions of the
  sequence apply it n times. A key that is not the next expected one sets the progress to
  zero and changes nothing else.
\<close>

theorem konami_sequence:
  "(konamiIndex st = 0 \<longrightarrow>
       feed konamiCode st = activateKonamiCode st
     \<and> konamiIndex (feed konamiCode st) = 0
     \<and> length (headStyles (feed konamiCode st)) = Suc (length (headStyles st))
     \<and> (\<forall>k<length konamiCode. feed (take k konamiCode) st = st\<lparr>konamiIndex := k\<rparr>)
     \<and> feed (concat (replicate n konamiCode)) st = (activateKonamiCode ^^ n) st)
   \<and> (\<not> (konamiIndex st < length konamiCode \<and> key = konamiCode ! konamiIndex st) \<longrightarrow>
       konamiListener key st = st\<lparr>konamiIndex := 0\<rparr>)"
proof -
  have "length (headStyles (activateKonamiCode st)) = Suc (length (headStyles st))"
    by (simp add: activateKonamiCode_def displayOutput_def Let_def)
  then show ?thesis
    using feed_konamiCode [of st] feed_prefix [of st] feed_repeat [of st n]
      konami_mismatch [of st key] activate_index [of st]
    by auto
qed

theorem konami_sequence_witness:
  "feed konamiCode demo_page = activateKonamiCode demo_page
   \<and> konamiListener ''b'' (feed [''ArrowUp'', ''ArrowUp''] demo_page) = demo_page"
proof -
  have i: "konamiIndex demo_page = 0"
    by (simp add: demo_page_def init_page_def)
  have p: "feed [''ArrowUp'', ''ArrowUp''] demo_page = demo_page\<lparr>konamiIndex := 2\<rparr>"
    by code_simp
  have m: "\<not> (konamiIndex (demo_page\<lparr>konamiIndex := 2\<rparr>) < length konamiCode
       \<and> ''b'' = konamiCode ! konamiIndex (demo_page\<lparr>konamiIndex := 2\<rparr>))"
    by (simp add: konamiCode_def)
  have z: "demo_page\<lparr>konamiIndex := 0\<rparr> = demo_page"
    by (simp add: demo_page_def init_page_def)
  from konami_sequence [of demo_page 1 "''b''"] i
  have "feed konamiCode demo_page = activateKonamiCode demo_page" by blast
  moreover from konami_sequence [of "demo_page\<lparr>konamiIndex := 2\<rparr>" 1 "''b''"] m
  have "konamiListener ''b'' (demo_page\<lparr>konamiIndex := 2\<rparr>) = demo_page\<lparr>konamiIndex := 2, konamiIndex := 0\<rparr>"
    by blast
  ultimately show ?thesis using p z by simp
qed

end
